theory Spec2Isabelle
  imports Main "HOL-Library.Sublist"
begin

section \<open>The result algebra of \<^verbatim>\<open>spec.py\<close>\<close>

text \<open>
  \<^verbatim>\<open>Valid\<close> and \<^verbatim>\<open>Invalid\<close> are the two subclasses of \<^verbatim>\<open>Validated\<close>; each is a
  one-element tuple holding its payload. Python does not type the payloads; the model
  gives the payload of each variant its own type, so that \<^verbatim>\<open>Valid(f)\<close> can hold a
  function while \<^verbatim>\<open>Invalid(e)\<close> holds an error.
\<close>

datatype ('a, 'e) validated = Valid 'a | Invalid 'e

subsection \<open>The utility module \<^verbatim>\<open>funklib.core.prelude\<close>\<close>

text \<open>
  Modelled from the spec: the module \<^verbatim>\<open>funklib.core.prelude\<close> is imported by
  \<^verbatim>\<open>spec.py\<close> and is not part of the sources. The spec describes its four functions:
  \<^verbatim>\<open>const\<close> returns a constant function, \<^verbatim>\<open>identity\<close> returns its argument,
  \<^verbatim>\<open>throw\<close> raises the error value as a fault, and \<^verbatim>\<open>sep_by\<close> takes a predicate and
  a sequence and returns two ordered sequences (matches, non-matches).
\<close>

definition prelude_const :: "'a \<Rightarrow> 'b \<Rightarrow> 'a" where
  "prelude_const x = (\<lambda>_. x)"

definition prelude_identity :: "'a \<Rightarrow> 'a" where
  "prelude_identity x = x"


definition sep_by :: "('a \<Rightarrow> bool) \<Rightarrow> 'a list \<Rightarrow> 'a list \<times> 'a list" where
  "sep_by p xs = (filter p xs, filter (\<lambda>x. \<not> p x) xs)"

subsection \<open>Operations of \<^verbatim>\<open>Validated\<close>\<close>

text \<open>
  \<^verbatim>\<open>verify\<close> dispatches on the variant. Its \<^verbatim>\<open>raise TypeError\<close> branch is for an
  object that is neither \<^verbatim>\<open>Valid\<close> nor \<^verbatim>\<open>Invalid\<close>; the datatype has no such value.
\<close>

definition verify :: "('a, 'e) validated \<Rightarrow> ('a \<Rightarrow> 'c) \<Rightarrow> ('e \<Rightarrow> 'c) \<Rightarrow> 'c" where
  "verify self valid invalid =
     (case self of Valid x \<Rightarrow> valid x | Invalid e \<Rightarrow> invalid e)"

definition is_valid :: "('a, 'e) validated \<Rightarrow> bool" where
  "is_valid self = verify self (prelude_const True) (prelude_const False)"

definition is_invalid :: "('a, 'e) validated \<Rightarrow> bool" where
  "is_invalid self = verify self (prelude_const False) (prelude_const True)"

text \<open>
  Where the source passes \<^verbatim>\<open>prelude.const(self)\<close> as the handler of the variant that
  \<^verbatim>\<open>self\<close> is, the model rebuilds \<^verbatim>\<open>self\<close> from the payload the handler receives:
  it is the same value, at the type of the result.

  The callback of \<^verbatim>\<open>then\<close> is a \<^verbatim>\<open>conform\<close> method in \<^verbatim>\<open>Chain\<close>, and \<^verbatim>\<open>conform\<close>
  can raise; so the callback returns a fault (\<open>Inl\<close>) or a result, and \<^verbatim>\<open>then\<close>
  passes a fault on as Python's exception would propagate.
\<close>

definition then_v ::
  "('a, 'e) validated \<Rightarrow> ('a \<Rightarrow> 'x + ('b, 'e) validated) \<Rightarrow> 'x + ('b, 'e) validated" where
  "then_v self f = verify self f (\<lambda>e. Inr (Invalid e))"

definition map_v :: "('a, 'e) validated \<Rightarrow> ('a \<Rightarrow> 'b) \<Rightarrow> ('b, 'e) validated" where
  "map_v self f = verify self (\<lambda>x. Valid (f x)) (\<lambda>e. Invalid e)"



text \<open>
  \<^verbatim>\<open>ap\<close>: the inner \<^verbatim>\<open>lambda e\<close> of the source rebinds \<^verbatim>\<open>e\<close>, and so does the
  inner abstraction here. Python's \<^verbatim>\<open>+\<close> on the error payloads is the \<open>plus\<close> of
  their type.
\<close>

definition ap ::
  "('a \<Rightarrow> 'b, 'e::plus) validated \<Rightarrow> ('a, 'e) validated \<Rightarrow> ('b, 'e) validated" where
  "ap self other =
     verify self
       (\<lambda>f. map_v other f)
       (\<lambda>e. verify other
              (\<lambda>_. Invalid e)
              (\<lambda>e. Invalid (e + e)))"

text \<open>
  Python's \<^verbatim>\<open>+\<close> dispatches on the type of the payload and raises \<^verbatim>\<open>TypeError\<close> on a
  type that has none. \<open>ap_add\<close> is \<^verbatim>\<open>ap\<close> with the \<^verbatim>\<open>+\<close> of the error payloads given
  as \<open>add\<close>, which returns the sum or raises; \<open>ap\<close> above is \<^verbatim>\<open>ap\<close> on payloads
  whose \<^verbatim>\<open>+\<close> always returns.
\<close>

definition ap_add ::
  "('e \<Rightarrow> 'e \<Rightarrow> 'x + 'e) \<Rightarrow> ('a \<Rightarrow> 'b, 'e) validated \<Rightarrow> ('a, 'e) validated
   \<Rightarrow> 'x + ('b, 'e) validated" where
  "ap_add add self other =
     verify self
       (\<lambda>f. Inr (map_v other f))
       (\<lambda>e. verify other
              (\<lambda>_. Inr (Invalid e))
              (\<lambda>e. case add e e of Inl x \<Rightarrow> Inl x | Inr s \<Rightarrow> Inr (Invalid s)))"


text \<open>
  \<^verbatim>\<open>op.itemgetter(0)\<close> reads the payload of a result. \<^verbatim>\<open>collect\<close> applies it to the
  two partitions; the model reads it at the payload type of the partition, and an
  element of the other variant has no payload of that type.
\<close>

fun valid_item0 :: "('a, 'e) validated \<Rightarrow> 'a option" where
  "valid_item0 (Valid x) = Some x"
| "valid_item0 (Invalid e) = None"

fun invalid_item0 :: "('a, 'e) validated \<Rightarrow> 'e option" where
  "invalid_item0 (Valid x) = None"
| "invalid_item0 (Invalid e) = Some e"

definition collect :: "('a, 'e) validated list \<Rightarrow> ('a list, 'e list) validated" where
  "collect validated =
     (let (vals, invs) = sep_by is_valid validated
      in if length invs > 0
         then Invalid (List.map_filter invalid_item0 invs)
         else Valid (List.map_filter valid_item0 vals))"



section \<open>Python values\<close>

text \<open>
  The values the specifications are run on: \<^verbatim>\<open>None\<close>, integers, strings, tuples and
  dictionaries. \<open>hval\<close> are the hashable ones among them (a tuple is hashable when its
  elements are): the keys of a \<^verbatim>\<open>dict\<close> and the elements of a \<^verbatim>\<open>frozenset\<close>. On these
  values Python's \<^verbatim>\<open>==\<close> is structural equality. A dictionary is a map from its keys.
\<close>

datatype hval = HNone | HInt int | HStr string | HTuple "hval list"

datatype val =
    VNone
  | VInt int
  | VStr string
  | VTuple "val list"
  | VDict "hval \<Rightarrow> val option"

fun of_hval :: "hval \<Rightarrow> val" where
  "of_hval HNone = VNone"
| "of_hval (HInt i) = VInt i"
| "of_hval (HStr s) = VStr s"
| "of_hval (HTuple hs) = VTuple (map of_hval hs)"

text \<open>\<open>to_hval v\<close> is \<open>None\<close> when \<^verbatim>\<open>hash(v)\<close> raises \<^verbatim>\<open>TypeError\<close>.\<close>

fun to_hval :: "val \<Rightarrow> hval option" where
  "to_hval VNone = Some HNone"
| "to_hval (VInt i) = Some (HInt i)"
| "to_hval (VStr s) = Some (HStr s)"
| "to_hval (VTuple vs) = map_option HTuple (those (map to_hval vs))"
| "to_hval (VDict m) = None"

datatype pytype = NoneType | IntType | StrType | TupleType | DictType | ObjectType

fun type_of :: "val \<Rightarrow> pytype" where
  "type_of VNone = NoneType"
| "type_of (VInt i) = IntType"
| "type_of (VStr s) = StrType"
| "type_of (VTuple vs) = TupleType"
| "type_of (VDict m) = DictType"

definition isinstance :: "val \<Rightarrow> pytype \<Rightarrow> bool" where
  "isinstance x t = (t = ObjectType \<or> type_of x = t)"

text \<open>The exceptions the built-in operations used by \<^verbatim>\<open>spec.py\<close> raise.\<close>

datatype fault = TypeError | AttributeError | KeyError | IndexError

text \<open>\<^verbatim>\<open>value.keys()\<close>: only a dictionary has the method.\<close>

fun py_keys :: "val \<Rightarrow> fault + hval set" where
  "py_keys (VDict m) = Inr (dom m)"
| "py_keys v = Inl AttributeError"

text \<open>Indexing a sequence: a negative index counts from the end.\<close>

definition py_index :: "'a list \<Rightarrow> int \<Rightarrow> fault + 'a" where
  "py_index xs i =
     (if 0 \<le> i \<and> i < int (length xs) then Inr (xs ! nat i)
      else if i < 0 \<and> - int (length xs) \<le> i then Inr (xs ! nat (int (length xs) + i))
      else Inl IndexError)"

text \<open>\<^verbatim>\<open>value[key]\<close>.\<close>

fun py_getitem :: "val \<Rightarrow> hval \<Rightarrow> fault + val" where
  "py_getitem (VDict m) k = (case m k of None \<Rightarrow> Inl KeyError | Some x \<Rightarrow> Inr x)"
| "py_getitem (VTuple vs) (HInt i) = py_index vs i"
| "py_getitem (VStr s) (HInt i) =
     (case py_index s i of Inl e \<Rightarrow> Inl e | Inr c \<Rightarrow> Inr (VStr [c]))"
| "py_getitem v k = Inl TypeError"

text \<open>\<^verbatim>\<open>key in value\<close>.\<close>

fun py_contains :: "hval \<Rightarrow> val \<Rightarrow> fault + bool" where
  "py_contains k (VDict m) = Inr (k \<in> dom m)"
| "py_contains k (VTuple vs) = Inr (of_hval k \<in> set vs)"
| "py_contains (HStr t) (VStr s) = Inr (sublist t s)"
| "py_contains k v = Inl TypeError"

section \<open>Specifications\<close>

text \<open>
  One constructor for each concrete subclass of \<^verbatim>\<open>Spec\<close>, holding what its
  \<^verbatim>\<open>__init__\<close> stores. The display \<^verbatim>\<open>name\<close> takes no part in \<^verbatim>\<open>conform\<close> or
  \<^verbatim>\<open>validate\<close> and is left out. The predicate of \<^verbatim>\<open>Predicate\<close> is the caller's
  function, taken to return a truth value on every input. \<^verbatim>\<open>Member\<close>, \<^verbatim>\<open>Type\<close> and
  \<^verbatim>\<open>All\<close> are the subclasses of \<^verbatim>\<open>Predicate\<close> that build their own predicate.
\<close>

datatype spec =
    Predicate "val \<Rightarrow> bool"
  | Member "hval set"
  | Type pytype
  | Alt "(val \<times> spec) list"
  | Chain "spec list"
  | All "spec list"
  | Keys "hval set" "hval set" bool
  | Key hval spec val

datatype spec_error = SpecError (error_value: val) (error_spec: spec)

type_synonym result = "(val, spec_error) validated"


subsection \<open>The loops of the combinators\<close>

text \<open>\<^verbatim>\<open>all(f(s) for s in specs)\<close> stops at the first false element.\<close>

fun py_all :: "('s \<Rightarrow> fault + bool) \<Rightarrow> 's list \<Rightarrow> fault + bool" where
  "py_all f [] = Inr True"
| "py_all f (s # ss) =
     (case f s of Inl e \<Rightarrow> Inl e | Inr b \<Rightarrow> if b then py_all f ss else Inr False)"

text \<open>\<^verbatim>\<open>any(f(s) for (_, s) in tagged_specs)\<close> stops at the first true element.\<close>

fun py_any :: "('s \<Rightarrow> fault + bool) \<Rightarrow> ('t \<times> 's) list \<Rightarrow> fault + bool" where
  "py_any f [] = Inr False"
| "py_any f ((t, s) # ts) =
     (case f s of Inl e \<Rightarrow> Inl e | Inr b \<Rightarrow> if b then Inr True else py_any f ts)"

text \<open>\<^verbatim>\<open>functools.reduce(f, xs, acc)\<close>, with a step that can raise.\<close>

fun reduce :: "('b \<Rightarrow> 'a \<Rightarrow> 'x + 'b) \<Rightarrow> 'a list \<Rightarrow> 'b \<Rightarrow> 'x + 'b" where
  "reduce f [] acc = Inr acc"
| "reduce f (x # xs) acc =
     (case f acc x of Inl e \<Rightarrow> Inl e | Inr acc' \<Rightarrow> reduce f xs acc')"

text \<open>
  The \<^verbatim>\<open>for\<close> loop of \<^verbatim>\<open>Alt.conform\<close>: \<open>Some res\<close> is the \<^verbatim>\<open>return res\<close> inside the
  loop, \<open>None\<close> is the loop running to its \<^verbatim>\<open>else\<close> branch.
\<close>

fun alt_loop :: "(spec \<Rightarrow> fault + result) \<Rightarrow> (val \<times> spec) list \<Rightarrow> fault + result option" where
  "alt_loop conf [] = Inr None"
| "alt_loop conf ((tag, s) # ts) =
     (case conf s of
        Inl e \<Rightarrow> Inl e
      | Inr r \<Rightarrow>
          (let res = map_v r (\<lambda>x. VTuple [tag, x])
           in if is_valid res then Inr (Some res) else alt_loop conf ts))"

lemma py_all_cong [fundef_cong]:
  assumes "xs = ys" and "\<And>s. s \<in> set ys \<Longrightarrow> f s = g s"
  shows "py_all f xs = py_all g ys"
proof -
  have "py_all f ys = py_all g ys" using assms(2)
  proof (induction ys)
    case Nil
    show ?case by simp
  next
    case (Cons a ys)
    have "f a = g a" using Cons.prems by simp
    moreover have "py_all f ys = py_all g ys" using Cons by simp
    ultimately show ?case by (simp split: sum.splits)
  qed
  with assms(1) show ?thesis by simp
qed

lemma py_any_cong [fundef_cong]:
  assumes "xs = ys" and "\<And>t s. (t, s) \<in> set ys \<Longrightarrow> f s = g s"
  shows "py_any f xs = py_any g ys"
proof -
  have "py_any f ys = py_any g ys" using assms(2)
  proof (induction ys)
    case Nil
    show ?case by simp
  next
    case (Cons a ys)
    obtain t s where a: "a = (t, s)" by (cases a)
    have "f s = g s" using Cons.prems a by auto
    moreover have "py_any f ys = py_any g ys" using Cons by auto
    ultimately show ?case using a by (simp split: sum.splits)
  qed
  with assms(1) show ?thesis by simp
qed

lemma reduce_cong [fundef_cong]:
  assumes "xs = ys" and "a = b" and "\<And>acc x. x \<in> set ys \<Longrightarrow> f acc x = g acc x"
  shows "reduce f xs a = reduce g ys b"
proof -
  have "reduce f ys b = reduce g ys b" using assms(3)
  proof (induction ys arbitrary: b)
    case Nil
    show ?case by simp
  next
    case (Cons y ys)
    have "f b y = g b y" using Cons.prems by simp
    moreover have "\<And>c. reduce f ys c = reduce g ys c" using Cons by simp
    ultimately show ?case by (simp split: sum.splits)
  qed
  with assms(1,2) show ?thesis by simp
qed

lemma alt_loop_cong [fundef_cong]:
  assumes "xs = ys" and "\<And>t s. (t, s) \<in> set ys \<Longrightarrow> f s = g s"
  shows "alt_loop f xs = alt_loop g ys"
proof -
  have "alt_loop f ys = alt_loop g ys" using assms(2)
  proof (induction ys)
    case Nil
    show ?case by simp
  next
    case (Cons a ys)
    obtain t s where a: "a = (t, s)" by (cases a)
    have "f s = g s" using Cons.prems a by auto
    moreover have "alt_loop f ys = alt_loop g ys" using Cons by auto
    ultimately show ?case using a by (simp add: Let_def split: sum.splits)
  qed
  with assms(1) show ?thesis by simp
qed

subsection \<open>\<^verbatim>\<open>conform\<close> and \<^verbatim>\<open>validate\<close>\<close>

text \<open>The test \<^verbatim>\<open>value in values\<close> of \<^verbatim>\<open>Member\<close> hashes the value first.\<close>

definition member_pred :: "hval set \<Rightarrow> val \<Rightarrow> fault + bool" where
  "member_pred values v =
     (case to_hval v of None \<Rightarrow> Inl TypeError | Some h \<Rightarrow> Inr (h \<in> values))"

text \<open>
  \<^verbatim>\<open>Predicate.conform\<close>, inherited by \<^verbatim>\<open>Member\<close>, \<^verbatim>\<open>Type\<close> and \<^verbatim>\<open>All\<close>; \<open>p\<close> is the
  outcome of \<^verbatim>\<open>self.pred(value)\<close>.
\<close>

definition predicate_conform :: "spec \<Rightarrow> fault + bool \<Rightarrow> val \<Rightarrow> fault + result" where
  "predicate_conform self p v =
     (case p of
        Inl e \<Rightarrow> Inl e
      | Inr b \<Rightarrow> Inr (if b then Valid v else Invalid (SpecError v self)))"

text \<open>The body of \<^verbatim>\<open>Keys.validate\<close>.\<close>

definition keys_validate :: "hval set \<Rightarrow> hval set \<Rightarrow> bool \<Rightarrow> val \<Rightarrow> fault + bool" where
  "keys_validate required optional strict v =
     (case py_keys v of
        Inl e \<Rightarrow> Inl e
      | Inr keys \<Rightarrow> Inr (required \<subseteq> keys \<and> (\<not> strict \<or> keys \<subseteq> required \<union> optional)))"

fun validate :: "spec \<Rightarrow> val \<Rightarrow> fault + bool"
  and conform :: "spec \<Rightarrow> val \<Rightarrow> fault + result" where
  "validate (Predicate pred) v = Inr (pred v)"
| "validate (Member values) v = member_pred values v"
| "validate (Type t) v = Inr (isinstance v t)"
| "validate (All specs) v = py_all (\<lambda>s. validate s v) specs"
| "validate (Alt tagged_specs) v = py_any (\<lambda>s. validate s v) tagged_specs"
| "validate (Chain specs) v =
     (case conform (Chain specs) v of Inl e \<Rightarrow> Inl e | Inr r \<Rightarrow> Inr (is_valid r))"
| "validate (Keys required optional strict) v = keys_validate required optional strict v"
| "validate (Key key s dflt) v =
     (case py_contains key v of
        Inl e \<Rightarrow> Inl e
      | Inr present \<Rightarrow>
          if \<not> present then Inr True
          else (case py_getitem v key of Inl e \<Rightarrow> Inl e | Inr k \<Rightarrow> validate s k))"
| "conform (Predicate pred) v = predicate_conform (Predicate pred) (Inr (pred v)) v"
| "conform (Member values) v = predicate_conform (Member values) (member_pred values v) v"
| "conform (Type t) v = predicate_conform (Type t) (Inr (isinstance v t)) v"
| "conform (All specs) v =
     predicate_conform (All specs) (py_all (\<lambda>s. validate s v) specs) v"
| "conform (Alt tagged_specs) v =
     (case alt_loop (\<lambda>s. conform s v) tagged_specs of
        Inl e \<Rightarrow> Inl e
      | Inr (Some res) \<Rightarrow> Inr res
      | Inr None \<Rightarrow> Inr (Invalid (SpecError v (Alt tagged_specs))))"
| "conform (Chain specs) v =
     reduce (\<lambda>acc s. then_v acc (\<lambda>x. conform s x)) specs (Valid v)"
| "conform (Keys required optional strict) v =
     (case keys_validate required optional strict v of
        Inl e \<Rightarrow> Inl e
      | Inr ok \<Rightarrow>
          Inr (if ok then Valid v
               else Invalid (SpecError v (Keys required optional strict))))"
| "conform (Key key s dflt) v =
     (case py_getitem v key of
        Inl e \<Rightarrow> if e = KeyError then Inr (Valid (VTuple [of_hval key, dflt])) else Inl e
      | Inr k \<Rightarrow>
          (case conform s k of
             Inl e \<Rightarrow> Inl e
           | Inr r \<Rightarrow> Inr (map_v r (\<lambda>x. VTuple [of_hval key, x]))))"

text \<open>
  \<^verbatim>\<open>conform(value).is_valid()\<close>: an exception raised by \<^verbatim>\<open>conform\<close> propagates.
\<close>

definition is_valid_of :: "fault + result \<Rightarrow> fault + bool" where
  "is_valid_of c = (case c of Inl e \<Rightarrow> Inl e | Inr r \<Rightarrow> Inr (is_valid r))"

text \<open>
  The inputs a variant's interface accepts. \<^verbatim>\<open>Key\<close> reads a field of a mapping and
  hands the field's value to its child; \<^verbatim>\<open>Alt\<close> hands its input to each branch. The
  other variants put no condition on the value.
\<close>

fun accepted :: "spec \<Rightarrow> val \<Rightarrow> bool" where
  "accepted (Key key s dflt) v =
     (case v of
        VDict m \<Rightarrow> (case m key of None \<Rightarrow> True | Some x \<Rightarrow> accepted s x)
      | _ \<Rightarrow> False)"
| "accepted (Alt tagged_specs) v = list_all (\<lambda>(tag, s). accepted s v) tagged_specs"
| "accepted s v = True"


subsection \<open>The specifications of the spec's examples\<close>

text \<open>
  The spec names the predicates \<^verbatim>\<open>is_positive\<close>, \<^verbatim>\<open>is_even\<close> and \<^verbatim>\<open>is_int\<close> of its
  examples without defining them; here they answer false on a value that is not an
  integer.
\<close>

definition is_positive :: "val \<Rightarrow> bool" where
  "is_positive v = (case v of VInt i \<Rightarrow> 0 < i | _ \<Rightarrow> False)"

definition is_even :: "val \<Rightarrow> bool" where
  "is_even v = (case v of VInt i \<Rightarrow> i mod 2 = 0 | _ \<Rightarrow> False)"

definition is_int :: "val \<Rightarrow> bool" where
  "is_int v = isinstance v IntType"

definition chain_positive_even :: spec where
  "chain_positive_even = Chain [Predicate is_positive, Predicate is_even]"

definition alt_a_b :: spec where
  "alt_a_b = Alt [(VStr ''a'', Predicate (\<lambda>v. v = VStr ''a'')),
                  (VStr ''b'', Predicate (\<lambda>v. v = VStr ''b''))]"

definition key_x_int :: spec where
  "key_x_int = Key (HStr ''x'') (Predicate is_int) (VInt 0)"

definition keys_x_y :: spec where
  "keys_x_y = Keys {HStr ''x''} {HStr ''y''} True"



section \<open>Properties of the result algebra\<close>

lemma then_v_simps:
  "then_v (Valid x) f = f x"
  "then_v (Invalid e) f = Inr (Invalid e)"
  by (simp_all add: then_v_def verify_def)

lemma map_v_simps:
  "map_v (Valid x) f = Valid (f x)"
  "map_v (Invalid e) f = Invalid e"
  by (simp_all add: map_v_def verify_def)

lemma is_valid_simps:
  "is_valid (Valid x) = True"
  "is_valid (Invalid e) = False"
  by (simp_all add: is_valid_def verify_def prelude_const_def)

lemma is_invalid_simps:
  "is_invalid (Valid x) = False"
  "is_invalid (Invalid e) = True"
  by (simp_all add: is_invalid_def verify_def prelude_const_def)

lemma is_invalid_iff: "is_invalid r = (\<not> is_valid r)"
  by (cases r) (simp_all add: is_valid_simps is_invalid_simps)

lemma is_valid_map_v: "is_valid (map_v r f) = is_valid r"
  by (cases r) (simp_all add: map_v_simps is_valid_simps)

text \<open>
  C9. Functor laws of \<^verbatim>\<open>map\<close>: mapping the identity over \<^verbatim>\<open>Valid(x)\<close> gives
  \<^verbatim>\<open>Valid(x)\<close>; mapping any function over \<^verbatim>\<open>Invalid(e)\<close> gives \<^verbatim>\<open>Invalid(e)\<close>; and
  mapping \<open>f\<close> and then \<open>g\<close> over any result is mapping their composition.
\<close>

theorem map_functor_laws:
  "map_v (Valid x) prelude_identity = Valid x
   \<and> map_v (Invalid e) f = Invalid e
   \<and> map_v (map_v r f) g = map_v r (g \<circ> f)"
  by (cases r) (simp_all add: map_v_simps prelude_identity_def)

text \<open>
  C10. \<^verbatim>\<open>Valid(f).ap(Invalid(e))\<close> is \<^verbatim>\<open>Invalid(e)\<close>: when the left operand is valid,
  the failure of the right operand is returned.
\<close>

theorem ap_valid_invalid:
  "ap (Valid f) (Invalid e) = Invalid e"
  by (simp add: ap_def verify_def map_v_simps)

text \<open>
  C1. The claim is that \<^verbatim>\<open>Invalid(e1).ap(Invalid(e2))\<close> is \<^verbatim>\<open>Invalid(e1 + e2)\<close> and
  that \<^verbatim>\<open>Invalid(e1).ap(Valid(y))\<close> is \<^verbatim>\<open>Invalid(e1)\<close>. The second part holds. The
  first does not: the inner \<^verbatim>\<open>lambda e\<close> hides the left payload, so the code adds the
  right payload to itself. With the integers 1 and 2 the code returns \<^verbatim>\<open>Invalid(4)\<close>,
  not \<^verbatim>\<open>Invalid(3)\<close>.
\<close>

theorem ap_invalid_invalid_doubles_right:
  "ap (Invalid e1) (Invalid e2) = Invalid (e2 + e2)
   \<and> ap (Invalid e1) (Valid y) = Invalid e1
   \<and> ap (Invalid (1::int)) (Invalid 2) = Invalid 4
   \<and> ap (Invalid (1::int)) (Invalid 2) \<noteq> Invalid (1 + 2)"
  by (simp add: ap_def verify_def)

lemma sep_by_valid_payloads:
  "List.map_filter valid_item0 (filter is_valid rs) = [x. Valid x \<leftarrow> rs]"
  by (induction rs)
     (auto simp: List.map_filter_simps is_valid_simps split: validated.splits)

lemma sep_by_invalid_payloads:
  "List.map_filter invalid_item0 (filter (\<lambda>r. \<not> is_valid r) rs) = [e. Invalid e \<leftarrow> rs]"
  by (induction rs)
     (auto simp: List.map_filter_simps is_valid_simps split: validated.splits)

lemma sep_by_some_invalid:
  "(filter (\<lambda>r. \<not> is_valid r) rs \<noteq> []) = list_ex is_invalid rs"
  by (induction rs) (simp_all add: is_invalid_iff)

text \<open>
  C3. \<^verbatim>\<open>Validated.collect\<close> of a finite sequence of results is \<^verbatim>\<open>Invalid\<close> of the
  error payloads of all its \<^verbatim>\<open>Invalid\<close> elements, in their order, when the sequence
  has an \<^verbatim>\<open>Invalid\<close> element, and otherwise \<^verbatim>\<open>Valid\<close> of the payloads of all its
  \<^verbatim>\<open>Valid\<close> elements, in their order. In particular
  \<^verbatim>\<open>collect([Valid(1), Invalid(e2), Valid(3), Invalid(e4)])\<close> is \<^verbatim>\<open>Invalid([e2, e4])\<close>,
  for \<^verbatim>\<open>e2 = SpecError(2, None)\<close> and \<^verbatim>\<open>e4 = SpecError(4, None)\<close> as for any other
  payloads.
\<close>

theorem collect_all_or_nothing:
  "collect rs =
     (if list_ex is_invalid rs
      then Invalid [e. Invalid e \<leftarrow> rs]
      else Valid [x. Valid x \<leftarrow> rs])
   \<and> collect [Valid (VInt 1), Invalid e2, Valid (VInt 3), Invalid e4] = Invalid [e2, e4]"
proof
  show "collect rs =
     (if list_ex is_invalid rs
      then Invalid [e. Invalid e \<leftarrow> rs]
      else Valid [x. Valid x \<leftarrow> rs])"
    using sep_by_some_invalid [of rs]
    by (simp add: collect_def sep_by_def sep_by_valid_payloads sep_by_invalid_payloads)
  show "collect [Valid (VInt 1), Invalid e2, Valid (VInt 3), Invalid e4] = Invalid [e2, e4]"
    by (simp add: collect_def sep_by_def is_valid_simps)
qed

section \<open>Properties of the combinators\<close>

lemma reduce_then_Invalid:
  "reduce (\<lambda>acc s. then_v acc (\<lambda>x. conform s x)) specs (Invalid e) = Inr (Invalid e)"
  by (induction specs) (simp_all add: then_v_simps)

text \<open>
  C2. \<^verbatim>\<open>Chain.conform(v)\<close> threads the value from left to right, starting from
  \<^verbatim>\<open>Valid(v)\<close>: the empty chain returns \<^verbatim>\<open>Valid(v)\<close>; otherwise the first stage is
  run on \<open>v\<close>, its conformed output is the input of the rest of the chain, and an
  \<^verbatim>\<open>Invalid\<close> of a stage is returned unchanged with no later stage run (an exception
  of a stage propagates). In particular
  \<^verbatim>\<open>Chain(Predicate(is_positive), Predicate(is_even))\<close> conforms 4 to \<^verbatim>\<open>Valid(4)\<close>
  and 3 to \<^verbatim>\<open>Invalid(SpecError(3, Predicate(is_even)))\<close>.
\<close>

theorem chain_conform_threads:
  "conform (Chain []) v = Inr (Valid v)
   \<and> conform (Chain (s # specs)) v =
       (case conform s v of
          Inl f \<Rightarrow> Inl f
        | Inr (Valid w) \<Rightarrow> conform (Chain specs) w
        | Inr (Invalid e) \<Rightarrow> Inr (Invalid e))
   \<and> conform chain_positive_even (VInt 4) = Inr (Valid (VInt 4))
   \<and> conform chain_positive_even (VInt 3) =
       Inr (Invalid (SpecError (VInt 3) (Predicate is_even)))"
proof (intro conjI)
  show "conform (Chain []) v = Inr (Valid v)"
    by simp
  show "conform (Chain (s # specs)) v =
       (case conform s v of
          Inl f \<Rightarrow> Inl f
        | Inr (Valid w) \<Rightarrow> conform (Chain specs) w
        | Inr (Invalid e) \<Rightarrow> Inr (Invalid e))"
    by (simp add: then_v_simps reduce_then_Invalid split: sum.splits validated.splits)
  show "conform chain_positive_even (VInt 4) = Inr (Valid (VInt 4))"
    by (simp add: chain_positive_even_def then_v_simps predicate_conform_def
        is_positive_def is_even_def)
  show "conform chain_positive_even (VInt 3) =
       Inr (Invalid (SpecError (VInt 3) (Predicate is_even)))"
    by (simp add: chain_positive_even_def then_v_simps predicate_conform_def
        is_positive_def is_even_def)
qed

theorem chain_conform_threads_witness:
  "conform (Chain [Predicate is_positive, Predicate is_even, Predicate is_positive]) (VInt 3) =
     Inr (Invalid (SpecError (VInt 3) (Predicate is_even)))
   \<and> conform (Chain [Predicate is_positive, Predicate is_even]) (VInt 6) = Inr (Valid (VInt 6))"
  using chain_conform_threads [where s = "Predicate is_positive"
      and specs = "[Predicate is_even, Predicate is_positive]" and v = "VInt 3"]
    chain_conform_threads [where s = "Predicate is_even"
      and specs = "[Predicate is_positive]" and v = "VInt 3"]
    chain_conform_threads [where s = "Predicate is_positive"
      and specs = "[Predicate is_even]" and v = "VInt 6"]
    chain_conform_threads [where s = "Predicate is_even" and specs = "[]" and v = "VInt 6"]
  by (simp add: predicate_conform_def is_positive_def is_even_def)

lemma alt_loop_none:
  "\<forall>(t, s) \<in> set ts. \<exists>e. conf s = Inr (Invalid e) \<Longrightarrow> alt_loop conf ts = Inr None"
  by (induction ts) (auto simp: map_v_simps is_valid_simps)

lemma alt_loop_first:
  "\<forall>(t, s) \<in> set pre. \<exists>e. conf s = Inr (Invalid e) \<Longrightarrow> conf s = Inr (Valid x) \<Longrightarrow>
   alt_loop conf (pre @ (tag, s) # post) = Inr (Some (Valid (VTuple [tag, x])))"
  by (induction pre) (auto simp: map_v_simps is_valid_simps)

text \<open>
  C4. \<^verbatim>\<open>Alt.conform(v)\<close>: when every branch before \<open>(tag, s)\<close> conforms \<open>v\<close> to an
  \<^verbatim>\<open>Invalid\<close> and \<open>s\<close> conforms it to \<^verbatim>\<open>Valid(x)\<close>, the result is
  \<^verbatim>\<open>Valid((tag, x))\<close>, whatever the later branches are; when every branch conforms
  \<open>v\<close> to an \<^verbatim>\<open>Invalid\<close>, the result is the single
  \<^verbatim>\<open>Invalid(SpecError(v, self))\<close>, and the errors of the branches are dropped. In
  particular the \<^verbatim>\<open>Alt\<close> of the branches \<^verbatim>\<open>"a"\<close> and \<^verbatim>\<open>"b"\<close> conforms \<^verbatim>\<open>"b"\<close>
  to \<^verbatim>\<open>Valid(("b", "b"))\<close> and \<^verbatim>\<open>"c"\<close> to \<^verbatim>\<open>Invalid(SpecError("c", alt_spec))\<close>.
\<close>

theorem alt_conform_first_match:
  "((\<forall>(t, c) \<in> set pre. \<exists>e. conform c v = Inr (Invalid e)) \<and> conform s v = Inr (Valid x)
      \<longrightarrow> conform (Alt (pre @ (tag, s) # post)) v = Inr (Valid (VTuple [tag, x])))
   \<and> ((\<forall>(t, c) \<in> set tagged_specs. \<exists>e. conform c v = Inr (Invalid e))
      \<longrightarrow> conform (Alt tagged_specs) v = Inr (Invalid (SpecError v (Alt tagged_specs))))
   \<and> conform alt_a_b (VStr ''b'') = Inr (Valid (VTuple [VStr ''b'', VStr ''b'']))
   \<and> conform alt_a_b (VStr ''c'') = Inr (Invalid (SpecError (VStr ''c'') alt_a_b))"
proof (intro conjI impI)
  assume "(\<forall>(t, c) \<in> set pre. \<exists>e. conform c v = Inr (Invalid e)) \<and> conform s v = Inr (Valid x)"
  then have "alt_loop (\<lambda>s. conform s v) (pre @ (tag, s) # post) =
      Inr (Some (Valid (VTuple [tag, x])))"
    by (intro alt_loop_first) simp_all
  then show "conform (Alt (pre @ (tag, s) # post)) v = Inr (Valid (VTuple [tag, x]))"
    by simp
next
  assume "\<forall>(t, c) \<in> set tagged_specs. \<exists>e. conform c v = Inr (Invalid e)"
  then have "alt_loop (\<lambda>s. conform s v) tagged_specs = Inr None"
    by (rule alt_loop_none)
  then show "conform (Alt tagged_specs) v = Inr (Invalid (SpecError v (Alt tagged_specs)))"
    by simp
next
  show "conform alt_a_b (VStr ''b'') = Inr (Valid (VTuple [VStr ''b'', VStr ''b'']))"
    by (simp add: alt_a_b_def predicate_conform_def map_v_simps is_valid_simps)
  show "conform alt_a_b (VStr ''c'') = Inr (Invalid (SpecError (VStr ''c'') alt_a_b))"
    by (simp add: alt_a_b_def predicate_conform_def map_v_simps is_valid_simps)
qed

theorem alt_conform_first_match_witness:
  "conform (Alt [(VInt 1, Predicate is_even), (VInt 2, Predicate is_positive),
                 (VInt 3, Predicate is_int)]) (VInt 5) = Inr (Valid (VTuple [VInt 2, VInt 5]))
   \<and> conform (Alt [(VInt 1, Predicate is_even), (VInt 2, Predicate is_positive)]) (VInt (- 5)) =
       Inr (Invalid (SpecError (VInt (- 5))
         (Alt [(VInt 1, Predicate is_even), (VInt 2, Predicate is_positive)])))"
  using alt_conform_first_match [where pre = "[(VInt 1, Predicate is_even)]"
      and s = "Predicate is_positive" and tag = "VInt 2" and x = "VInt 5" and v = "VInt 5"
      and post = "[(VInt 3, Predicate is_int)]"]
    alt_conform_first_match [where v = "VInt (- 5)"
      and tagged_specs = "[(VInt 1, Predicate is_even), (VInt 2, Predicate is_positive)]"]
  by (simp add: predicate_conform_def is_positive_def is_even_def)

text \<open>
  C5. \<^verbatim>\<open>Key(key, spec, default).conform(m)\<close> on a mapping \<open>m\<close>: when \<open>key\<close> is
  absent the result is \<^verbatim>\<open>Valid((key, default))\<close>; when \<open>m[key]\<close> is \<open>x\<close> the result
  is that of \<^verbatim>\<open>spec.conform(x)\<close>, a \<^verbatim>\<open>Valid(y)\<close> wrapped as \<^verbatim>\<open>Valid((key, y))\<close>
  and an \<^verbatim>\<open>Invalid\<close> passed on unchanged, so that the error names the field's spec.
  In particular \<^verbatim>\<open>Key("x", Predicate(is_int), default=0)\<close> conforms \<^verbatim>\<open>{}\<close> to
  \<^verbatim>\<open>Valid(("x", 0))\<close> and \<^verbatim>\<open>{"x": "s"}\<close> to
  \<^verbatim>\<open>Invalid(SpecError("s", Predicate(is_int)))\<close>. The key of a \<^verbatim>\<open>Key\<close> node is a
  dictionary key, a hashable value.
\<close>

theorem key_conform_mapping:
  "(m key = None \<longrightarrow>
      conform (Key key s dflt) (VDict m) = Inr (Valid (VTuple [of_hval key, dflt])))
   \<and> (m key = Some x \<longrightarrow>
      conform (Key key s dflt) (VDict m) =
        (case conform s x of
           Inl f \<Rightarrow> Inl f
         | Inr (Valid y) \<Rightarrow> Inr (Valid (VTuple [of_hval key, y]))
         | Inr (Invalid e) \<Rightarrow> Inr (Invalid e)))
   \<and> conform key_x_int (VDict Map.empty) = Inr (Valid (VTuple [VStr ''x'', VInt 0]))
   \<and> conform key_x_int (VDict [HStr ''x'' \<mapsto> VStr ''s'']) =
       Inr (Invalid (SpecError (VStr ''s'') (Predicate is_int)))"
proof (intro conjI impI)
  assume "m key = None"
  then show "conform (Key key s dflt) (VDict m) = Inr (Valid (VTuple [of_hval key, dflt]))"
    by simp
next
  assume "m key = Some x"
  then show "conform (Key key s dflt) (VDict m) =
        (case conform s x of
           Inl f \<Rightarrow> Inl f
         | Inr (Valid y) \<Rightarrow> Inr (Valid (VTuple [of_hval key, y]))
         | Inr (Invalid e) \<Rightarrow> Inr (Invalid e))"
    by (simp add: map_v_simps split: sum.splits validated.splits)
next
  show "conform key_x_int (VDict Map.empty) = Inr (Valid (VTuple [VStr ''x'', VInt 0]))"
    by (simp add: key_x_int_def)
  show "conform key_x_int (VDict [HStr ''x'' \<mapsto> VStr ''s'']) =
       Inr (Invalid (SpecError (VStr ''s'') (Predicate is_int)))"
    by (simp add: key_x_int_def map_v_simps predicate_conform_def is_int_def isinstance_def)
qed

theorem key_conform_mapping_witness:
  "conform (Key (HInt 7) (Predicate is_even) VNone) (VDict [HInt 8 \<mapsto> VInt 1]) =
     Inr (Valid (VTuple [VInt 7, VNone]))
   \<and> conform (Key (HInt 7) (Predicate is_even) VNone) (VDict [HInt 7 \<mapsto> VInt 4]) =
     Inr (Valid (VTuple [VInt 7, VInt 4]))
   \<and> conform (Key (HInt 7) (Predicate is_even) VNone) (VDict [HInt 7 \<mapsto> VInt 5]) =
     Inr (Invalid (SpecError (VInt 5) (Predicate is_even)))"
  using key_conform_mapping [where m = "[HInt 8 \<mapsto> VInt 1]" and key = "HInt 7"
      and s = "Predicate is_even" and dflt = VNone]
    key_conform_mapping [where m = "[HInt 7 \<mapsto> VInt 4]" and key = "HInt 7"
      and s = "Predicate is_even" and dflt = VNone and x = "VInt 4"]
    key_conform_mapping [where m = "[HInt 7 \<mapsto> VInt 5]" and key = "HInt 7"
      and s = "Predicate is_even" and dflt = VNone and x = "VInt 5"]
  by (simp add: predicate_conform_def is_even_def)

text \<open>
  C6. \<^verbatim>\<open>Keys(required, optional, strict).validate(m)\<close> on a mapping \<open>m\<close> is true
  exactly when every required key is a key of \<open>m\<close> and, when \<open>strict\<close> is true, every
  key of \<open>m\<close> is required or optional; \<^verbatim>\<open>conform(m)\<close> is \<^verbatim>\<open>Valid(m)\<close> in that case
  and \<^verbatim>\<open>Invalid(SpecError(m, self))\<close> otherwise. In particular
  \<^verbatim>\<open>Keys(required={"x"}, optional={"y"}, strict=True)\<close> validates \<^verbatim>\<open>{"x": 1}\<close> and
  neither \<^verbatim>\<open>{"x": 1, "z": 2}\<close> nor \<^verbatim>\<open>{"y": 1}\<close>.
\<close>

theorem keys_validate_conform:
  "validate (Keys required optional strict) (VDict m) =
     Inr (required \<subseteq> dom m \<and> (strict \<longrightarrow> dom m \<subseteq> required \<union> optional))
   \<and> conform (Keys required optional strict) (VDict m) =
     Inr (if required \<subseteq> dom m \<and> (strict \<longrightarrow> dom m \<subseteq> required \<union> optional)
          then Valid (VDict m)
          else Invalid (SpecError (VDict m) (Keys required optional strict)))
   \<and> validate keys_x_y (VDict [HStr ''x'' \<mapsto> VInt 1]) = Inr True
   \<and> validate keys_x_y (VDict [HStr ''x'' \<mapsto> VInt 1, HStr ''z'' \<mapsto> VInt 2]) = Inr False
   \<and> validate keys_x_y (VDict [HStr ''y'' \<mapsto> VInt 1]) = Inr False"
  by (auto simp add: keys_validate_def keys_x_y_def)

theorem keys_validate_conform_witness:
  "validate (Keys {HInt 1} {HInt 2} True) (VDict [HInt 1 \<mapsto> VNone, HInt 2 \<mapsto> VNone]) = Inr True
   \<and> validate (Keys {HInt 1} {HInt 2} True) (VDict [HInt 1 \<mapsto> VNone, HInt 3 \<mapsto> VNone]) = Inr False
   \<and> validate (Keys {HInt 1} {HInt 2} False) (VDict [HInt 1 \<mapsto> VNone, HInt 3 \<mapsto> VNone]) = Inr True
   \<and> conform (Keys {HInt 1} {HInt 2} True) (VDict [HInt 2 \<mapsto> VNone]) =
       Inr (Invalid (SpecError (VDict [HInt 2 \<mapsto> VNone]) (Keys {HInt 1} {HInt 2} True)))"
  using keys_validate_conform [where required = "{HInt 1}" and optional = "{HInt 2}"
      and strict = True and m = "[HInt 1 \<mapsto> VNone, HInt 2 \<mapsto> VNone]"]
    keys_validate_conform [where required = "{HInt 1}" and optional = "{HInt 2}"
      and strict = True and m = "[HInt 1 \<mapsto> VNone, HInt 3 \<mapsto> VNone]"]
    keys_validate_conform [where required = "{HInt 1}" and optional = "{HInt 2}"
      and strict = False and m = "[HInt 1 \<mapsto> VNone, HInt 3 \<mapsto> VNone]"]
    keys_validate_conform [where required = "{HInt 1}" and optional = "{HInt 2}"
      and strict = True and m = "[HInt 2 \<mapsto> VNone]"]
  by simp


section \<open>\<^verbatim>\<open>validate\<close> against \<^verbatim>\<open>conform\<close>\<close>

lemma is_valid_of_simps:
  "is_valid_of (Inl e) = Inl e"
  "is_valid_of (Inr r) = Inr (is_valid r)"
  by (simp_all add: is_valid_of_def)

lemma predicate_conform_valid:
  "is_valid_of (predicate_conform self p v) = p"
  by (cases p) (simp_all add: predicate_conform_def is_valid_simps is_valid_of_simps)

lemma alt_loop_valid: "alt_loop conf ts = Inr (Some r) \<Longrightarrow> is_valid r"
proof (induction ts)
  case Nil
  then show ?case by simp
next
  case (Cons a ts)
  obtain t c where a: "a = (t, c)" by (cases a)
  show ?case
  proof (cases "conf c")
    case (Inl e)
    then show ?thesis using Cons.prems a by simp
  next
    case (Inr r')
    show ?thesis
    proof (cases "is_valid (map_v r' (\<lambda>x. VTuple [t, x]))")
      case True
      then show ?thesis using Cons.prems a Inr by (simp add: Let_def)
    next
      case False
      then have "alt_loop conf ts = Inr (Some r)" using Cons.prems a Inr by (simp add: Let_def)
      then show ?thesis by (rule Cons.IH)
    qed
  qed
qed

lemma py_any_alt_loop:
  assumes "\<And>t c. (t, c) \<in> set ts \<Longrightarrow> validate c v = is_valid_of (conform c v)"
  shows "py_any (\<lambda>s. validate s v) ts =
         (case alt_loop (\<lambda>s. conform s v) ts of
            Inl e \<Rightarrow> Inl e
          | Inr res \<Rightarrow> Inr (res \<noteq> None))"
  using assms
proof (induction ts)
  case Nil
  show ?case by simp
next
  case (Cons a ts)
  obtain t c where a: "a = (t, c)" by (cases a)
  have c: "validate c v = is_valid_of (conform c v)" using Cons.prems[of t c] a by simp
  have rest: "py_any (\<lambda>s. validate s v) ts =
         (case alt_loop (\<lambda>s. conform s v) ts of
            Inl e \<Rightarrow> Inl e
          | Inr res \<Rightarrow> Inr (res \<noteq> None))"
  proof (rule Cons.IH)
    fix t' c'
    assume "(t', c') \<in> set ts"
    then show "validate c' v = is_valid_of (conform c' v)"
      using Cons.prems[of t' c'] by simp
  qed
  show ?case
    by (cases "conform c v") (simp_all add: a c rest Let_def is_valid_map_v is_valid_of_simps)
qed

text \<open>
  C7. For every specification of the eight variants and every input its interface
  accepts, \<^verbatim>\<open>validate(v)\<close> is \<^verbatim>\<open>conform(v).is_valid()\<close>: both return the same truth
  value, or both raise the same exception. The proof is by induction on the
  specification, so the equivalence of the children, which the claim assumes for the
  combinators, is the induction hypothesis.
\<close>

theorem validate_iff_conform_is_valid:
  "accepted s v \<Longrightarrow> validate s v = is_valid_of (conform s v)"
proof (induction s arbitrary: v)
  case (Predicate p)
  show ?case by (simp add: predicate_conform_valid)
next
  case (Member vs)
  show ?case by (simp add: predicate_conform_valid)
next
  case (Type t)
  show ?case by (simp add: predicate_conform_valid)
next
  case (Alt ts)
  have "py_any (\<lambda>s. validate s v) ts =
         (case alt_loop (\<lambda>s. conform s v) ts of
            Inl e \<Rightarrow> Inl e
          | Inr res \<Rightarrow> Inr (res \<noteq> None))"
  proof (rule py_any_alt_loop)
    fix t c
    assume m: "(t, c) \<in> set ts"
    then have "accepted c v" using Alt.prems by (auto simp: list_all_iff)
    moreover have "c \<in> Basic_BNFs.snds (t, c)" by simp
    ultimately show "validate c v = is_valid_of (conform c v)"
      using Alt.IH m by blast
  qed
  then show ?case using alt_loop_valid[of "\<lambda>s. conform s v" ts]
    by (cases "alt_loop (\<lambda>s. conform s v) ts")
       (auto simp: is_valid_simps is_valid_of_simps split: option.splits)
next
  case (Chain ss)
  show ?case by (simp add: is_valid_of_def)
next
  case (All ss)
  show ?case by (simp add: predicate_conform_valid)
next
  case (Keys req opt strict)
  show ?case by (simp add: is_valid_simps is_valid_of_def split: sum.splits)
next
  case (Key k c d)
  then obtain m where v: "v = VDict m"
    by (cases v) simp_all
  show ?case
  proof (cases "m k")
    case None
    then show ?thesis by (simp add: v domIff is_valid_simps is_valid_of_simps)
  next
    case (Some x)
    then have "accepted c x" using Key.prems v by simp
    then have "validate c x = is_valid_of (conform c x)" by (rule Key.IH)
    then show ?thesis using Some
      by (cases "conform c x") (auto simp add: v domIff is_valid_map_v is_valid_of_simps)
  qed
qed

theorem validate_iff_conform_is_valid_witness:
  "accepted key_x_int (VDict [HStr ''x'' \<mapsto> VStr ''s''])
   \<and> validate key_x_int (VDict [HStr ''x'' \<mapsto> VStr ''s'']) = Inr False
   \<and> is_valid_of (conform key_x_int (VDict [HStr ''x'' \<mapsto> VStr ''s''])) = Inr False
   \<and> accepted alt_a_b (VStr ''b'')
   \<and> validate alt_a_b (VStr ''b'') = Inr True
   \<and> is_valid_of (conform alt_a_b (VStr ''b'')) = Inr True"
  using validate_iff_conform_is_valid [where s = key_x_int
      and v = "VDict [HStr ''x'' \<mapsto> VStr ''s'']"]
    validate_iff_conform_is_valid [where s = alt_a_b and v = "VStr ''b''"]
  by (simp add: key_x_int_def alt_a_b_def predicate_conform_def map_v_simps is_valid_simps
      is_valid_of_simps is_int_def isinstance_def)

section \<open>Faults\<close>







lemma ap_add_plus:
  "ap_add (\<lambda>a b. Inr (a + b)) self other = Inr (ap self other)"
  by (cases self; cases other) (simp_all add: ap_add_def ap_def verify_def)






end
